theory Spec2Isabelle
  imports Main "HOL-Library.Word"
begin

section \<open>The rotating file writer (FileManager.h)\<close>

text \<open>
  \<^verbatim>\<open>size_t\<close> is a 64-bit unsigned integer: \<open>+\<close> wraps around. A buffer is a list of
  bytes; a \<^verbatim>\<open>BLoggerString\<close> is a string.
\<close>

type_synonym size_t = "64 word"
type_synonym byte = "8 word"
type_synonym path = string

subsection \<open>The C file API the writer calls\<close>

text \<open>
  The file system as the writer sees it: the bytes written to each path so far, the
  \<^verbatim>\<open>FILE*\<close> streams that are open (a stream is named by the path it was opened on), and
  which paths can be opened at all.
\<close>

record filesys =
  contents :: "path \<Rightarrow> byte list option"
  handles :: "path list"
  writable :: "path \<Rightarrow> bool"

text \<open>
  Modelled from the spec: the macro \<^verbatim>\<open>OPEN_FILE\<close> of BLogger/OS/Functions.h is not among
  the sources. The spec has the writer open a file that is created or truncated
  ("reopening/truncating that file") and an open that can fail ("underlying file could
  not be opened"): the stream is returned, or the null pointer.
\<close>

definition OPEN_FILE :: "filesys \<Rightarrow> path \<Rightarrow> path option \<times> filesys" where
  "OPEN_FILE fs p =
     (if writable fs p
      then (Some p, fs\<lparr>contents := (contents fs)(p \<mapsto> []), handles := p # handles fs\<rparr>)
      else (None, fs))"

definition fclose :: "filesys \<Rightarrow> path \<Rightarrow> filesys" where
  "fclose fs h = fs\<lparr>handles := remove1 h (handles fs)\<rparr>"

definition fwrite :: "filesys \<Rightarrow> path \<Rightarrow> byte list \<Rightarrow> filesys" where
  "fwrite fs h bs =
     fs\<lparr>contents := (contents fs)(h \<mapsto> (case contents fs h of None \<Rightarrow> bs | Some old \<Rightarrow> old @ bs))\<rparr>"

text \<open>\<^verbatim>\<open>fflush\<close> changes nothing of the bytes written to a stream.\<close>

definition fflush :: "filesys \<Rightarrow> path \<Rightarrow> filesys" where
  "fflush fs h = fs"

subsection \<open>The class\<close>

text \<open>\<open>m_File\<close> is the stream, \<open>None\<close> the null pointer.\<close>

record FileManager =
  m_File :: "path option"
  m_DirectoryPath :: string
  m_CachedTag :: string
  m_BytesPerFile :: size_t
  m_CurrentBytes :: size_t
  m_MaxLogFiles :: size_t
  m_CurrentLogFiles :: size_t
  m_RotateLogs :: bool
  m_State :: bool

text \<open>A writer together with the file system it works on.\<close>

type_synonym writer = "FileManager \<times> filesys"

text \<open>The one way a call can fail hard: \<^verbatim>\<open>fwrite\<close> on the null stream.\<close>

datatype failure = NullStream

definition FileManager_ctor :: FileManager where
  "FileManager_ctor =
     \<lparr>m_File = None, m_DirectoryPath = ''none'', m_CachedTag = [],
      m_BytesPerFile = 0, m_CurrentBytes = 0, m_MaxLogFiles = 0, m_CurrentLogFiles = 0,
      m_RotateLogs = False, m_State = True\<rparr>"

text \<open>\<^verbatim>\<open>std::to_string\<close> on an unsigned number: its decimal digits.\<close>

definition digit_char :: "nat \<Rightarrow> char" where
  "digit_char d = ''0123456789'' ! d"

function to_string :: "nat \<Rightarrow> string" where
  "to_string n = (if n < 10 then [digit_char n] else to_string (n div 10) @ [digit_char (n mod 10)])"
  by pat_completeness auto
termination
  by (relation "measure id") auto

declare to_string.simps [simp del]

definition constructFullPath :: "FileManager \<Rightarrow> path" where
  "constructFullPath fm =
     m_DirectoryPath fm @ m_CachedTag fm @ ''-'' @ to_string (unat (m_CurrentLogFiles fm)) @ ''.log''"

definition ready :: "FileManager \<Rightarrow> bool" where
  "ready fm = (m_File fm \<noteq> None)"

definition ok :: "FileManager \<Rightarrow> bool" where
  "ok fm = m_State fm"

definition setTag :: "string \<Rightarrow> writer \<Rightarrow> writer" where
  "setTag tag s = (case s of (fm, fs) \<Rightarrow> (fm\<lparr>m_CachedTag := tag\<rparr>, fs))"

text \<open>The stream is closed when there is one, here and in \<open>newLogFile\<close>.\<close>

definition close_current :: "writer \<Rightarrow> writer" where
  "close_current s =
     (case s of (fm, fs) \<Rightarrow>
        (case m_File fm of
           Some h \<Rightarrow> (fm\<lparr>m_File := None\<rparr>, fclose fs h)
         | None \<Rightarrow> (fm, fs)))"

definition newLogFile :: "writer \<Rightarrow> writer" where
  "newLogFile s =
     (case close_current s of (fm, fs) \<Rightarrow>
        (case OPEN_FILE fs (constructFullPath fm) of (f, fs') \<Rightarrow>
           (fm\<lparr>m_File := f, m_State := (f \<noteq> None)\<rparr>, fs')))"

definition init :: "string \<Rightarrow> string \<Rightarrow> size_t \<Rightarrow> size_t \<Rightarrow> bool \<Rightarrow> writer \<Rightarrow> bool \<times> writer" where
  "init directoryPath loggerTag bytesPerFile maxLogFiles rotateLogs s =
     (case s of (fm, fs) \<Rightarrow>
        (let s' = newLogFile
                    (fm\<lparr>m_CachedTag := loggerTag,
                        m_BytesPerFile := bytesPerFile,
                        m_MaxLogFiles := maxLogFiles,
                        m_RotateLogs := rotateLogs,
                        m_CurrentBytes := 0,
                        m_CurrentLogFiles := 1,
                        m_DirectoryPath := directoryPath @ ''/''\<rparr>, fs)
         in (m_File (fst s') \<noteq> None, s')))"

definition terminate :: "writer \<Rightarrow> writer" where
  "terminate s = close_current s"

text \<open>
  Lines 106 to 125 of \<^verbatim>\<open>write\<close>, where \<open>sz\<close> is the size already incremented: the writer
  moves to another file when the bytes accounted so far and \<open>sz\<close> exceed the budget.
  \<open>None\<close> is the early return of line 111.
\<close>

definition rollover :: "size_t \<Rightarrow> writer \<Rightarrow> writer option" where
  "rollover sz s =
     (case s of (fm, fs) \<Rightarrow>
        if m_BytesPerFile fm \<noteq> 0 \<and> m_CurrentBytes fm + sz > m_BytesPerFile fm then
          (if m_CurrentLogFiles fm = m_MaxLogFiles fm then
             (if \<not> m_RotateLogs fm then None
              else Some (newLogFile (fm\<lparr>m_CurrentLogFiles := 1, m_CurrentBytes := 0\<rparr>, fs)))
           else
             Some (newLogFile (fm\<lparr>m_CurrentBytes := 0,
                                   m_CurrentLogFiles := m_CurrentLogFiles fm + 1\<rparr>, fs)))
        else Some s)"

text \<open>
  \<open>write_fm bs n s\<close> is \<^verbatim>\<open>FileManager::write(data, size)\<close>: the buffer \<open>bs\<close> and its size
  \<open>n\<close>, as the caller passes them. The bytes written are the first \<open>n\<close> of the buffer (\<open>n + 1 - 1\<close>, with
  wrap-around).
  When the open of \<open>newLogFile\<close> failed, \<^verbatim>\<open>fwrite\<close> receives the null stream.
\<close>

definition write_fm :: "byte list \<Rightarrow> size_t \<Rightarrow> writer \<Rightarrow> failure + writer" where
  "write_fm bs n s =
     (if \<not> ready (fst s) then Inr s
      else
        let sz = n + 1 in
        if m_BytesPerFile (fst s) \<noteq> 0 \<and> sz > m_BytesPerFile (fst s) then Inr s
        else
          (case rollover sz s of
             None \<Rightarrow> Inr s
           | Some (fm, fs) \<Rightarrow>
               (let fm' = fm\<lparr>m_CurrentBytes := m_CurrentBytes fm + sz\<rparr> in
                case m_File fm' of
                  None \<Rightarrow> Inl NullStream
                | Some h \<Rightarrow> Inr (fm', fwrite fs h (take (unat (sz - 1)) bs)))))"

text \<open>\<open>flush_file\<close> is \<^verbatim>\<open>FileManager::flush\<close>; \<open>flush\<close> below is the one of the pool.\<close>

definition flush_file :: "writer \<Rightarrow> writer" where
  "flush_file s =
     (case s of (fm, fs) \<Rightarrow>
        (case m_File fm of Some h \<Rightarrow> (fm, fflush fs h) | None \<Rightarrow> (fm, fs)))"

text \<open>A sequence of writes, one after the other; a hard failure ends it.\<close>

fun writes :: "(byte list \<times> size_t) list \<Rightarrow> writer \<Rightarrow> failure + writer" where
  "writes [] s = Inr s"
| "writes ((bs, n) # rest) s =
     (case write_fm bs n s of Inl e \<Rightarrow> Inl e | Inr s' \<Rightarrow> writes rest s')"

text \<open>
  A file system on which nothing exists yet and every path can be opened; the concrete
  runs below start from it.
\<close>

definition fs_empty :: filesys where
  "fs_empty = \<lparr>contents = (\<lambda>p. None), handles = [], writable = (\<lambda>p. True)\<rparr>"

text \<open>
  The invariants of the writer: the file index lies in \<open>[1, m_MaxLogFiles]\<close> when
  \<open>m_MaxLogFiles\<close> is positive, the accounted bytes stay within a positive budget, and the
  streams the writer holds open are exactly its \<open>m_File\<close> (none, or this one).
\<close>

definition writer_inv :: "writer \<Rightarrow> bool" where
  "writer_inv s =
     (case s of (fm, fs) \<Rightarrow>
        (m_MaxLogFiles fm \<noteq> 0 \<longrightarrow>
           1 \<le> m_CurrentLogFiles fm \<and> m_CurrentLogFiles fm \<le> m_MaxLogFiles fm) \<and>
        (m_BytesPerFile fm \<noteq> 0 \<longrightarrow> m_CurrentBytes fm \<le> m_BytesPerFile fm) \<and>
        handles fs = (case m_File fm of None \<Rightarrow> [] | Some h \<Rightarrow> [h]))"

section \<open>The task queue and the worker pool (BLoggerAsync.h)\<close>

subsection \<open>Tasks\<close>

text \<open>
  The enumeration \<^verbatim>\<open>level\<close> is declared in BLogger/LogLevels.h, which is not among the
  sources; its values are the ones the \<^verbatim>\<open>switch\<close> of \<open>do_work\<close> names.
\<close>

datatype level = trace | debug | info | warn | error | crit

text \<open>
  Modelled from the spec: the class \<^verbatim>\<open>LogMsg\<close> (BLogger/Loggers/BLoggerBase.h) is not among
  the sources. The spec's record is \<open>{senderId, bytes, toConsole, toFile, colorize, severity}\<close>;
  the fields are named after the accessors \<open>do_work\<close> calls (\<open>file_flag\<close> is \<^verbatim>\<open>file()\<close>).
  \<^verbatim>\<open>size()\<close> is the length of \<open>data\<close>. \<^verbatim>\<open>finalize_format()\<close>, which belongs to the same
  class, is a parameter of \<open>do_work\<close> below.
\<close>

record LogMsg =
  sender :: "16 word"
  data :: "byte list"
  console :: bool
  file_flag :: bool
  color :: bool
  log_level :: level

text \<open>
  \<^verbatim>\<open>log_task\<close> and \<^verbatim>\<open>flush_task\<close>, the two classes derived from \<^verbatim>\<open>task\<close>; the tag
  \<^verbatim>\<open>task_type\<close> that \<^verbatim>\<open>type()\<close> returns is the constructor.
\<close>

datatype task = log_task LogMsg | flush_task

definition BLOGGER_TASK_LIMIT :: nat where
  "BLOGGER_TASK_LIMIT = 100"

subsection \<open>The console\<close>

text \<open>
  The colour macros are not among the sources; they are kept as names. What reaches
  \<^verbatim>\<open>std::cout\<close> is the list of the operations on it, in the order they happen.
\<close>

datatype color_code =
  BLOGGER_TRACE_COLOR | BLOGGER_DEBUG_COLOR | BLOGGER_INFO_COLOR
  | BLOGGER_WARN_COLOR | BLOGGER_ERROR_COLOR | BLOGGER_CRIT_COLOR | BLOGGER_RESET

datatype cout_op = set_output_color color_code | cout_write "byte list" | cout_flush

subsection \<open>The pool\<close>

text \<open>
  Where a worker thread stands in \<open>worker\<close>: about to call \<open>do_work\<close>; inside \<open>do_work\<close>
  after the queue lock is released, holding the task \<open>p\<close> it popped; about to evaluate the
  condition of the \<^verbatim>\<open>while\<close> with the value of \<open>did_work\<close>; returned from \<open>worker\<close>.
\<close>

datatype worker_pc = at_do_work | holding task | at_while bool | exited

text \<open>
  Where the caller of \<open>shutdown\<close> stands: not called yet; in the loop of joins, waiting
  for the worker of that index; returned.
\<close>

datatype shutdown_pc = not_called | joining nat | returned

text \<open>
  The fields of \<^verbatim>\<open>thread_pool\<close>, then what the pool works on: the objects the shared pointers
  of \<open>m_Files\<close> point to (a pointer is an address; the class \<^verbatim>\<open>FileHelper\<close> is not among
  the sources, so its objects are of any type \<open>'fh\<close>), the console, and the caller of
  \<open>shutdown\<close>. \<open>m_Pool\<close> holds, for each thread, where it stands.
\<close>

record 'fh thread_pool =
  m_Files :: "16 word \<Rightarrow> nat option"
  m_Pool :: "worker_pc list"
  m_TaskQueue :: "task list"
  m_Running :: bool
  helpers :: "nat \<Rightarrow> 'fh"
  cout :: "cout_op list"
  teardown :: shutdown_pc

text \<open>
  The constructor starts \<open>thread_count\<close> threads on \<open>worker\<close>. In \<open>add_helper\<close> and
  \<open>remove_helper\<close> the parameter \<^verbatim>\<open>id\<close> is \<open>ident\<close>.
\<close>

definition thread_pool_ctor :: "nat \<Rightarrow> (nat \<Rightarrow> 'fh) \<Rightarrow> 'fh thread_pool" where
  "thread_pool_ctor thread_count objs =
     \<lparr>m_Files = (\<lambda>ident. None), m_Pool = replicate thread_count at_do_work, m_TaskQueue = [],
      m_Running = True, helpers = objs, cout = [], teardown = not_called\<rparr>"

definition post :: "LogMsg \<Rightarrow> 'fh thread_pool \<Rightarrow> 'fh thread_pool" where
  "post message s =
     s\<lparr>m_TaskQueue :=
         (if length (m_TaskQueue s) = BLOGGER_TASK_LIMIT then tl (m_TaskQueue s) else m_TaskQueue s)
         @ [log_task message]\<rparr>"

definition flush :: "'fh thread_pool \<Rightarrow> 'fh thread_pool" where
  "flush s = s\<lparr>m_TaskQueue := m_TaskQueue s @ [flush_task]\<rparr>"

definition add_helper :: "16 word \<Rightarrow> nat \<Rightarrow> 'fh thread_pool \<Rightarrow> 'fh thread_pool" where
  "add_helper ident fhptr s = s\<lparr>m_Files := (m_Files s)(ident \<mapsto> fhptr)\<rparr>"

definition remove_helper :: "16 word \<Rightarrow> 'fh thread_pool \<Rightarrow> 'fh thread_pool" where
  "remove_helper ident s =
     (if m_Files s ident \<noteq> None then s\<lparr>m_Files := (m_Files s)(ident := None)\<rparr> else s)"

subsection \<open>\<open>do_work\<close>\<close>

text \<open>
  Lines 120 to 130, under the queue lock: the front task is popped, or the queue is
  found empty.
\<close>

definition take_task :: "'fh thread_pool \<Rightarrow> (task \<times> 'fh thread_pool) option" where
  "take_task s =
     (case m_TaskQueue s of
        [] \<Rightarrow> None
      | p # rest \<Rightarrow> Some (p, s\<lparr>m_TaskQueue := rest\<rparr>))"

fun level_color :: "level \<Rightarrow> color_code" where
  "level_color trace = BLOGGER_TRACE_COLOR"
| "level_color debug = BLOGGER_DEBUG_COLOR"
| "level_color info = BLOGGER_INFO_COLOR"
| "level_color warn = BLOGGER_WARN_COLOR"
| "level_color error = BLOGGER_ERROR_COLOR"
| "level_color crit = BLOGGER_CRIT_COLOR"

text \<open>Lines 141 to 159, under the lock \<open>m_GlobalWrite\<close>.\<close>

definition console_output :: "LogMsg \<Rightarrow> cout_op list" where
  "console_output m =
     (if color m then [set_output_color (level_color (log_level m))] else [])
     @ [cout_write (data m)]
     @ (if color m then [set_output_color BLOGGER_RESET] else [])"

text \<open>
  Lines 132 to 177, with no queue lock held: the popped task is carried out.
  \<open>finalize_format\<close> is the method of \<^verbatim>\<open>LogMsg\<close>, \<open>wr\<close> the \<^verbatim>\<open>write\<close> of \<^verbatim>\<open>FileHelper\<close>: both are
  parameters, since neither class is among the sources.
\<close>

definition run_task ::
  "(LogMsg \<Rightarrow> LogMsg) \<Rightarrow> ('fh \<Rightarrow> byte list \<Rightarrow> size_t \<Rightarrow> 'fh) \<Rightarrow> task \<Rightarrow> 'fh thread_pool \<Rightarrow> 'fh thread_pool"
where
  "run_task finalize_format wr p s =
     (case p of
        log_task msg \<Rightarrow>
          (let m = finalize_format msg;
               s1 = (if console m then s\<lparr>cout := cout s @ console_output m\<rparr> else s)
           in if file_flag m then
                (case m_Files s1 (sender m) of
                   None \<Rightarrow> s1
                 | Some a \<Rightarrow>
                     s1\<lparr>helpers := (helpers s1)
                          (a := wr (helpers s1 a) (data m) (of_nat (length (data m))))\<rparr>)
              else s1)
      | flush_task \<Rightarrow> s\<lparr>cout := cout s @ [cout_flush]\<rparr>)"

definition do_work ::
  "(LogMsg \<Rightarrow> LogMsg) \<Rightarrow> ('fh \<Rightarrow> byte list \<Rightarrow> size_t \<Rightarrow> 'fh) \<Rightarrow> 'fh thread_pool \<Rightarrow> bool \<times> 'fh thread_pool"
where
  "do_work finalize_format wr s =
     (case take_task s of
        None \<Rightarrow> (False, s)
      | Some (p, s1) \<Rightarrow> (True, run_task finalize_format wr p s1))"

subsection \<open>Threads\<close>

text \<open>
  What happens to the pool, one atomic step at a time: a producer posts or flushes (under
  the queue lock), a logger registers or unregisters its helper, the caller of \<open>shutdown\<close>
  takes its next step, or the worker thread of that index takes its next step.
\<close>

datatype event =
  Post LogMsg | Flush | Add_helper "16 word" nat | Remove_helper "16 word" | Shutdown | Worker nat

text \<open>
  One step of the thread \<open>i\<close> in \<open>worker\<close>. The two halves of \<open>do_work\<close> are two steps: the
  queue lock is released between them. The sleep of line 110 changes nothing.
\<close>

definition worker_step ::
  "(LogMsg \<Rightarrow> LogMsg) \<Rightarrow> ('fh \<Rightarrow> byte list \<Rightarrow> size_t \<Rightarrow> 'fh) \<Rightarrow> nat \<Rightarrow> 'fh thread_pool \<Rightarrow> 'fh thread_pool"
where
  "worker_step finalize_format wr i s =
     (if i < length (m_Pool s) then
        (case m_Pool s ! i of
           at_do_work \<Rightarrow>
             (case take_task s of
                None \<Rightarrow> s\<lparr>m_Pool := (m_Pool s)[i := at_while False]\<rparr>
              | Some (p, s1) \<Rightarrow> s1\<lparr>m_Pool := (m_Pool s1)[i := holding p]\<rparr>)
         | holding p \<Rightarrow>
             (run_task finalize_format wr p s)\<lparr>m_Pool := (m_Pool s)[i := at_while True]\<rparr>
         | at_while did_work \<Rightarrow>
             s\<lparr>m_Pool := (m_Pool s)[i := (if m_Running s \<or> did_work then at_do_work else exited)]\<rparr>
         | exited \<Rightarrow> s)
      else s)"

text \<open>
  One step of \<open>shutdown\<close>: the flag is cleared, then the workers are joined one after the
  other; a join waits (the step changes nothing) until its worker has returned.
\<close>

definition shutdown_step :: "'fh thread_pool \<Rightarrow> 'fh thread_pool" where
  "shutdown_step s =
     (case teardown s of
        not_called \<Rightarrow> s\<lparr>m_Running := False, teardown := joining 0\<rparr>
      | joining i \<Rightarrow>
          (if i < length (m_Pool s)
           then (if m_Pool s ! i = exited then s\<lparr>teardown := joining (Suc i)\<rparr> else s)
           else s\<lparr>teardown := returned\<rparr>)
      | returned \<Rightarrow> s)"

definition step ::
  "(LogMsg \<Rightarrow> LogMsg) \<Rightarrow> ('fh \<Rightarrow> byte list \<Rightarrow> size_t \<Rightarrow> 'fh) \<Rightarrow> event \<Rightarrow> 'fh thread_pool \<Rightarrow> 'fh thread_pool"
where
  "step finalize_format wr e s =
     (case e of
        Post message \<Rightarrow> post message s
      | Flush \<Rightarrow> flush s
      | Add_helper ident fhptr \<Rightarrow> add_helper ident fhptr s
      | Remove_helper ident \<Rightarrow> remove_helper ident s
      | Shutdown \<Rightarrow> shutdown_step s
      | Worker i \<Rightarrow> worker_step finalize_format wr i s)"

definition run ::
  "(LogMsg \<Rightarrow> LogMsg) \<Rightarrow> ('fh \<Rightarrow> byte list \<Rightarrow> size_t \<Rightarrow> 'fh) \<Rightarrow> event list \<Rightarrow> 'fh thread_pool \<Rightarrow> 'fh thread_pool"
where
  "run finalize_format wr es s = fold (step finalize_format wr) es s"






section \<open>Properties of the file writer\<close>

lemma word_lt_succ: "(n::size_t) + 1 \<noteq> 0 \<Longrightarrow> n < n + 1"
  by unat_arith

lemma close_current_fields:
  "close_current (fm, fs) = (fm', fs') \<Longrightarrow>
     m_File fm' = None \<and> fm' = fm\<lparr>m_File := None\<rparr> \<and> contents fs' = contents fs \<and> writable fs' = writable fs"
  by (auto simp: close_current_def fclose_def split: option.splits)

lemma close_current_handles:
  "handles fs = (case m_File fm of None \<Rightarrow> [] | Some h \<Rightarrow> [h]) \<Longrightarrow>
     handles (snd (close_current (fm, fs))) = []"
  by (auto simp: close_current_def fclose_def split: option.splits)

lemma newLogFile_fields:
  "newLogFile (fm, fs) = (fm', fs') \<Longrightarrow>
     fm' = fm\<lparr>m_File := m_File fm', m_State := (m_File fm' \<noteq> None)\<rparr> \<and> writable fs' = writable fs"
  by (auto simp: newLogFile_def close_current_def fclose_def OPEN_FILE_def split: option.splits if_splits)

lemma newLogFile_handles:
  "handles fs = (case m_File fm of None \<Rightarrow> [] | Some h \<Rightarrow> [h]) \<Longrightarrow>
   newLogFile (fm, fs) = (fm', fs') \<Longrightarrow>
     handles fs' = (case m_File fm' of None \<Rightarrow> [] | Some h \<Rightarrow> [h])"
  by (auto simp: newLogFile_def close_current_def fclose_def OPEN_FILE_def split: option.splits if_splits)

lemma newLogFile_writable:
  "writable fs (constructFullPath fm) \<Longrightarrow>
     newLogFile (fm, fs) =
       (fm\<lparr>m_File := Some (constructFullPath fm), m_State := True\<rparr>,
        (snd (close_current (fm, fs)))\<lparr>contents := (contents fs)(constructFullPath fm \<mapsto> []),
            handles := constructFullPath fm # handles (snd (close_current (fm, fs)))\<rparr>)"
  by (auto simp: newLogFile_def close_current_def fclose_def OPEN_FILE_def constructFullPath_def split: option.splits if_splits)

lemma init_inv:
  assumes "writer_inv s"
  shows "writer_inv (snd (init d t b m r s))"
proof -
  obtain fm fs where s: "s = (fm, fs)" by (cases s)
  let ?fm0 = "fm\<lparr>m_CachedTag := t, m_BytesPerFile := b, m_MaxLogFiles := m,
      m_RotateLogs := r, m_CurrentBytes := 0, m_CurrentLogFiles := 1,
      m_DirectoryPath := d @ ''/''\<rparr>"
  obtain fm' fs' where n: "newLogFile (?fm0, fs) = (fm', fs')" by (cases "newLogFile (?fm0, fs)")
  have h: "handles fs = (case m_File ?fm0 of None \<Rightarrow> [] | Some h \<Rightarrow> [h])"
    using assms by (simp add: s writer_inv_def)
  have f: "fm' = ?fm0\<lparr>m_File := m_File fm', m_State := (m_File fm' \<noteq> None)\<rparr>"
    using newLogFile_fields [OF n] by simp
  have "handles fs' = (case m_File fm' of None \<Rightarrow> [] | Some h \<Rightarrow> [h])"
    by (rule newLogFile_handles [OF h n])
  moreover have "m_CurrentLogFiles fm' = 1" "m_CurrentBytes fm' = 0" "m_MaxLogFiles fm' = m"
    by (subst f, simp)+
  moreover have "m \<noteq> 0 \<Longrightarrow> 1 \<le> m"
    by unat_arith
  ultimately have "writer_inv (fm', fs')"
    by (simp add: writer_inv_def)
  then show ?thesis
    by (simp add: init_def s n)
qed

lemma rollover_inv:
  assumes "writer_inv s" and "rollover sz s = Some (fm', fs')"
    and "m_BytesPerFile (fst s) \<noteq> 0 \<longrightarrow> sz \<le> m_BytesPerFile (fst s)"
  shows "(m_MaxLogFiles fm' \<noteq> 0 \<longrightarrow>
           1 \<le> m_CurrentLogFiles fm' \<and> m_CurrentLogFiles fm' \<le> m_MaxLogFiles fm') \<and>
         (m_BytesPerFile fm' \<noteq> 0 \<longrightarrow> m_CurrentBytes fm' + sz \<le> m_BytesPerFile fm') \<and>
         handles fs' = (case m_File fm' of None \<Rightarrow> [] | Some h \<Rightarrow> [h])"
proof -
  obtain fm fs where s: "s = (fm, fs)" by (cases s)
  have h: "handles fs = (case m_File fm of None \<Rightarrow> [] | Some h \<Rightarrow> [h])"
    and i: "m_MaxLogFiles fm \<noteq> 0 \<longrightarrow> 1 \<le> m_CurrentLogFiles fm \<and> m_CurrentLogFiles fm \<le> m_MaxLogFiles fm"
    using assms(1) by (simp_all add: s writer_inv_def)
  show ?thesis
  proof (cases "m_BytesPerFile fm \<noteq> 0 \<and> m_CurrentBytes fm + sz > m_BytesPerFile fm")
    case False
    then have "fm' = fm" "fs' = fs"
      using assms(2) by (auto simp: rollover_def s)
    with False h i show ?thesis
      by (auto simp: not_less)
  next
    case over: True
    show ?thesis
    proof (cases "m_CurrentLogFiles fm = m_MaxLogFiles fm")
      case True
      let ?fm0 = "fm\<lparr>m_CurrentLogFiles := 1, m_CurrentBytes := 0\<rparr>"
      have n: "newLogFile (?fm0, fs) = (fm', fs')"
        using assms(2) over True by (auto simp: rollover_def s split: if_splits)
      have h0: "handles fs = (case m_File ?fm0 of None \<Rightarrow> [] | Some h \<Rightarrow> [h])"
        using h by simp
      have f: "fm' = ?fm0\<lparr>m_File := m_File fm', m_State := (m_File fm' \<noteq> None)\<rparr>"
        using newLogFile_fields [OF n] by simp
      have v: "m_CurrentLogFiles fm' = 1" "m_CurrentBytes fm' = 0"
          "m_MaxLogFiles fm' = m_MaxLogFiles fm" "m_BytesPerFile fm' = m_BytesPerFile fm"
        by (subst f, simp)+
      have "m_MaxLogFiles fm \<noteq> 0 \<Longrightarrow> 1 \<le> m_MaxLogFiles fm"
        by unat_arith
      with v newLogFile_handles [OF h0 n] assms(3) show ?thesis
        by (simp add: s)
    next
      case False
      let ?fm0 = "fm\<lparr>m_CurrentBytes := 0, m_CurrentLogFiles := m_CurrentLogFiles fm + 1\<rparr>"
      have n: "newLogFile (?fm0, fs) = (fm', fs')"
        using assms(2) over False by (auto simp: rollover_def s split: if_splits)
      have h0: "handles fs = (case m_File ?fm0 of None \<Rightarrow> [] | Some h \<Rightarrow> [h])"
        using h by simp
      have f: "fm' = ?fm0\<lparr>m_File := m_File fm', m_State := (m_File fm' \<noteq> None)\<rparr>"
        using newLogFile_fields [OF n] by simp
      have v: "m_CurrentLogFiles fm' = m_CurrentLogFiles fm + 1" "m_CurrentBytes fm' = 0"
          "m_MaxLogFiles fm' = m_MaxLogFiles fm" "m_BytesPerFile fm' = m_BytesPerFile fm"
        by (subst f, simp)+
      have "m_MaxLogFiles fm \<noteq> 0 \<Longrightarrow>
              1 \<le> m_CurrentLogFiles fm + 1 \<and> m_CurrentLogFiles fm + 1 \<le> m_MaxLogFiles fm"
        using i False by unat_arith
      with v newLogFile_handles [OF h0 n] assms(3) show ?thesis
        by (simp add: s)
    qed
  qed
qed

lemma write_fm_inv:
  assumes "writer_inv s" and "write_fm bs n s = Inr s'"
  shows "writer_inv s'"
proof (cases "\<not> ready (fst s) \<or> (m_BytesPerFile (fst s) \<noteq> 0 \<and> n + 1 > m_BytesPerFile (fst s))")
  case True
  then have "s' = s"
    using assms(2) by (auto simp: write_fm_def Let_def split: if_splits)
  with assms(1) show ?thesis by simp
next
  case False
  then have b: "m_BytesPerFile (fst s) \<noteq> 0 \<longrightarrow> n + 1 \<le> m_BytesPerFile (fst s)"
    by (auto simp: not_less)
  show ?thesis
  proof (cases "rollover (n + 1) s")
    case None
    then have "s' = s"
      using assms(2) False by (auto simp: write_fm_def)
    with assms(1) show ?thesis by simp
  next
    case (Some p)
    obtain fm1 fs1 where p: "p = (fm1, fs1)" by (cases p)
    have r: "rollover (n + 1) s = Some (fm1, fs1)"
      using Some p by simp
    obtain h where h: "m_File fm1 = Some h"
      and s': "s' = (fm1\<lparr>m_CurrentBytes := m_CurrentBytes fm1 + (n + 1)\<rparr>,
                     fwrite fs1 h (take (unat (n + 1 - 1)) bs))"
      using assms(2) False r by (auto simp: write_fm_def Let_def split: option.splits)
    from rollover_inv [OF assms(1) r b] show ?thesis
      by (simp add: s' writer_inv_def fwrite_def h)
  qed
qed

lemma close_current_inv: "writer_inv s \<Longrightarrow> writer_inv (close_current s)"
  by (cases s) (auto simp: writer_inv_def close_current_def fclose_def split: option.splits)

text \<open>
  C7. Every operation of the writer (\<open>init\<close>, \<^verbatim>\<open>write\<close>, \<open>terminate\<close>, \<open>setTag\<close>, \<^verbatim>\<open>flush\<close>)
  preserves the invariants \<open>writer_inv\<close>: the file index lies in \<open>[1, m_MaxLogFiles]\<close> when
  \<open>m_MaxLogFiles\<close> is positive, \<open>m_CurrentBytes\<close> is at most a positive \<open>m_BytesPerFile\<close>, and at
  most one stream is open, the one of \<open>m_File\<close>. For \<^verbatim>\<open>write\<close> this is said of every state it
  returns; the call that hands the null stream to \<^verbatim>\<open>fwrite\<close> returns none.
\<close>

theorem writer_invariants_preserved:
  assumes "writer_inv s"
  shows "writer_inv (snd (init directoryPath loggerTag bytesPerFile maxLogFiles rotateLogs s)) \<and>
         (\<forall>s'. write_fm bs n s = Inr s' \<longrightarrow> writer_inv s') \<and>
         writer_inv (terminate s) \<and>
         writer_inv (setTag tag s) \<and>
         writer_inv (flush_file s)"
proof -
  have "writer_inv (setTag tag s)"
    using assms by (cases s) (simp add: writer_inv_def setTag_def)
  moreover have "writer_inv (flush_file s)"
    using assms by (cases s) (simp add: writer_inv_def flush_file_def fflush_def split: option.splits)
  ultimately show ?thesis
    using assms init_inv write_fm_inv close_current_inv by (simp add: terminate_def)
qed

lemmas writer_eval =
  init_def newLogFile_def close_current_def OPEN_FILE_def fclose_def fwrite_def
  constructFullPath_def to_string.simps digit_char_def FileManager_ctor_def fs_empty_def
  write_fm_def rollover_def ready_def ok_def terminate_def setTag_def flush_file_def fflush_def

theorem writer_invariants_preserved_witness:
  "writer_inv (snd (init ''logs'' ''app'' 10 2 True (FileManager_ctor, fs_empty))) \<and>
   writer_inv (snd (init ''out'' ''tag'' 20 3 False
      (snd (init ''logs'' ''app'' 10 2 True (FileManager_ctor, fs_empty))))) \<and>
   write_fm [1, 2, 3, 4, 5] 5 (snd (init ''logs'' ''app'' 10 2 True (FileManager_ctor, fs_empty))) =
     Inr (\<lparr>m_File = Some ''logs/app-1.log'', m_DirectoryPath = ''logs/'', m_CachedTag = ''app'',
           m_BytesPerFile = 10, m_CurrentBytes = 6, m_MaxLogFiles = 2, m_CurrentLogFiles = 1,
           m_RotateLogs = True, m_State = True\<rparr>,
          \<lparr>contents = [''logs/app-1.log'' \<mapsto> [1, 2, 3, 4, 5]],
           handles = [''logs/app-1.log''], writable = (\<lambda>p. True)\<rparr>) \<and>
   writer_inv (\<lparr>m_File = Some ''logs/app-1.log'', m_DirectoryPath = ''logs/'', m_CachedTag = ''app'',
           m_BytesPerFile = 10, m_CurrentBytes = 6, m_MaxLogFiles = 2, m_CurrentLogFiles = 1,
           m_RotateLogs = True, m_State = True\<rparr>,
          \<lparr>contents = [''logs/app-1.log'' \<mapsto> [1, 2, 3, 4, 5]],
           handles = [''logs/app-1.log''], writable = (\<lambda>p. True)\<rparr>) \<and>
   writer_inv (terminate (snd (init ''logs'' ''app'' 10 2 True (FileManager_ctor, fs_empty)))) \<and>
   writer_inv (setTag ''tag'' (snd (init ''logs'' ''app'' 10 2 True (FileManager_ctor, fs_empty)))) \<and>
   writer_inv (flush_file (snd (init ''logs'' ''app'' 10 2 True (FileManager_ctor, fs_empty))))"
proof -
  let ?s = "snd (init ''logs'' ''app'' 10 2 True (FileManager_ctor, fs_empty))"
  have i: "writer_inv ?s"
    by (simp add: writer_eval writer_inv_def)
  have w: "write_fm [1, 2, 3, 4, 5] 5 ?s =
     Inr (\<lparr>m_File = Some ''logs/app-1.log'', m_DirectoryPath = ''logs/'', m_CachedTag = ''app'',
           m_BytesPerFile = 10, m_CurrentBytes = 6, m_MaxLogFiles = 2, m_CurrentLogFiles = 1,
           m_RotateLogs = True, m_State = True\<rparr>,
          \<lparr>contents = [''logs/app-1.log'' \<mapsto> [1, 2, 3, 4, 5]],
           handles = [''logs/app-1.log''], writable = (\<lambda>p. True)\<rparr>)"
    by (simp add: writer_eval)
  from writer_invariants_preserved [OF i, of "''out''" "''tag''" 20 3 False "[1, 2, 3, 4, 5]" 5 "''tag''"] i w
  show ?thesis
    by simp
qed

text \<open>
  C6. When the byte budget \<open>m_BytesPerFile\<close> is positive and the size of a record exceeds
  it, \<^verbatim>\<open>write\<close> rejects the record: the writer and every file are as before, so no byte
  is written and \<open>m_CurrentBytes\<close> is unchanged. (The size of a buffer in memory is below
  the largest \<open>size_t\<close>, so that \<open>++size\<close> does not wrap.)
\<close>

theorem write_oversized_rejected:
  assumes "m_BytesPerFile (fst s) \<noteq> 0"
    and "n > m_BytesPerFile (fst s)"
    and "n + 1 \<noteq> 0"
  shows "write_fm bs n s = Inr s"
proof -
  have "n < n + 1"
    using assms(3) by (rule word_lt_succ)
  with assms(2) have "m_BytesPerFile (fst s) < n + 1"
    by simp
  with assms(1) show ?thesis
    by (simp add: write_fm_def)
qed

theorem write_oversized_rejected_witness:
  "ready (fst (snd (init ''logs'' ''app'' 4 2 True (FileManager_ctor, fs_empty)))) \<and>
   m_BytesPerFile (fst (snd (init ''logs'' ''app'' 4 2 True (FileManager_ctor, fs_empty)))) \<noteq> 0 \<and>
   (5::size_t) > m_BytesPerFile (fst (snd (init ''logs'' ''app'' 4 2 True (FileManager_ctor, fs_empty)))) \<and>
   (5::size_t) + 1 \<noteq> 0 \<and>
   write_fm [1, 2, 3, 4, 5] 5 (snd (init ''logs'' ''app'' 4 2 True (FileManager_ctor, fs_empty)))
     = Inr (snd (init ''logs'' ''app'' 4 2 True (FileManager_ctor, fs_empty)))"
proof -
  let ?s = "snd (init ''logs'' ''app'' 4 2 True (FileManager_ctor, fs_empty))"
  have a: "m_BytesPerFile (fst ?s) \<noteq> 0" and b: "(5::size_t) > m_BytesPerFile (fst ?s)"
    and r: "ready (fst ?s)"
    by (simp_all add: writer_eval)
  have c: "(5::size_t) + 1 \<noteq> 0"
    by simp
  from write_oversized_rejected [OF a b c, of "[1, 2, 3, 4, 5]"] a b c r show ?thesis
    by simp
qed

text \<open>
  C5, as the claim states it, fails: with \<open>m_MaxLogFiles = 0\<close>, \<open>m_RotateLogs\<close> set and a
  budget of 10 bytes, the second record of 5 bytes moves the writer from file 1 to file 2.
\<close>

theorem zero_maxfiles_counterexample:
  "writes [([1, 2, 3, 4, 5], 5), ([6, 7, 8, 9, 10], 5)]
      (snd (init ''logs'' ''app'' 10 0 True (FileManager_ctor, fs_empty))) =
   Inr (\<lparr>m_File = Some ''logs/app-2.log'', m_DirectoryPath = ''logs/'', m_CachedTag = ''app'',
         m_BytesPerFile = 10, m_CurrentBytes = 6, m_MaxLogFiles = 0, m_CurrentLogFiles = 2,
         m_RotateLogs = True, m_State = True\<rparr>,
        \<lparr>contents = [''logs/app-1.log'' \<mapsto> [1, 2, 3, 4, 5], ''logs/app-2.log'' \<mapsto> [6, 7, 8, 9, 10]],
         handles = [''logs/app-2.log''], writable = (\<lambda>p. True)\<rparr>)"
  by (simp add: writer_eval)

lemma write_fm_accepted:
  assumes "ready (fst s)"
    and "m_BytesPerFile (fst s) \<noteq> 0 \<longrightarrow> n + 1 \<le> m_BytesPerFile (fst s)"
    and "rollover (n + 1) s = Some (fm1, fs1)"
    and "m_File fm1 = Some h"
  shows "write_fm bs n s =
           Inr (fm1\<lparr>m_CurrentBytes := m_CurrentBytes fm1 + (n + 1)\<rparr>, fwrite fs1 h (take (unat n) bs))"
  using assms by (auto simp: write_fm_def Let_def not_less)

text \<open>
  C5, amended. For a writer with \<open>m_MaxLogFiles = 0\<close> and a positive budget, the comparison
  \<open>m_CurrentLogFiles = m_MaxLogFiles\<close> of line 108 is false as long as the index is not zero
  (\<open>init\<close> sets it to 1), so the branch that wraps to file 1 or rejects is not taken,
  whatever \<open>m_RotateLogs\<close> is. Instead every accepted write that would exceed the budget
  increments the index, opens the file of the new index and starts its account at the
  size of the record plus one: rotation by size stays on, with no bound on the number
  of files.
\<close>

theorem zero_maxfiles_rotates:
  assumes "m_MaxLogFiles fm = 0" and "m_CurrentLogFiles fm \<noteq> 0"
    and "ready fm" and "m_BytesPerFile fm \<noteq> 0"
    and "n + 1 \<le> m_BytesPerFile fm"
    and "m_CurrentBytes fm + (n + 1) > m_BytesPerFile fm"
    and "writable fs (constructFullPath (fm\<lparr>m_CurrentLogFiles := m_CurrentLogFiles fm + 1\<rparr>))"
  shows "\<exists>fm' fs'. write_fm bs n (fm, fs) = Inr (fm', fs') \<and>
           m_CurrentLogFiles fm' = m_CurrentLogFiles fm + 1 \<and>
           m_CurrentBytes fm' = n + 1 \<and>
           m_File fm' = Some (constructFullPath fm') \<and>
           contents fs' (constructFullPath fm') = Some (take (unat n) bs)"
proof -
  let ?fm0 = "fm\<lparr>m_CurrentBytes := 0, m_CurrentLogFiles := m_CurrentLogFiles fm + 1\<rparr>"
  let ?p = "constructFullPath ?fm0"
  let ?fm1 = "?fm0\<lparr>m_File := Some ?p, m_State := True\<rparr>"
  have p: "?p = constructFullPath (fm\<lparr>m_CurrentLogFiles := m_CurrentLogFiles fm + 1\<rparr>)"
    by (simp add: constructFullPath_def)
  have w: "writable fs ?p"
    using assms(7) p by simp
  obtain fs1 where n: "newLogFile (?fm0, fs) = (?fm1, fs1)" and c: "contents fs1 ?p = Some []"
    using newLogFile_writable [OF w] by simp
  have r: "rollover (n + 1) (fm, fs) = Some (?fm1, fs1)"
    using assms(1,2,4,6) n by (simp add: rollover_def)
  have "write_fm bs n (fm, fs) =
          Inr (?fm1\<lparr>m_CurrentBytes := m_CurrentBytes ?fm1 + (n + 1)\<rparr>, fwrite fs1 ?p (take (unat n) bs))"
    using assms(3,5) r by (intro write_fm_accepted) simp_all
  moreover have "constructFullPath (?fm1\<lparr>m_CurrentBytes := m_CurrentBytes ?fm1 + (n + 1)\<rparr>) = ?p"
    by (simp add: constructFullPath_def)
  ultimately show ?thesis
    using c by (simp add: fwrite_def)
qed

theorem zero_maxfiles_rotates_witness:
  "write_fm [1, 2, 3, 4, 5] 5 (snd (init ''logs'' ''app'' 10 0 False (FileManager_ctor, fs_empty))) =
   Inr (\<lparr>m_File = Some ''logs/app-1.log'', m_DirectoryPath = ''logs/'', m_CachedTag = ''app'',
         m_BytesPerFile = 10, m_CurrentBytes = 6, m_MaxLogFiles = 0, m_CurrentLogFiles = 1,
         m_RotateLogs = False, m_State = True\<rparr>,
        \<lparr>contents = [''logs/app-1.log'' \<mapsto> [1, 2, 3, 4, 5]],
         handles = [''logs/app-1.log''], writable = (\<lambda>p. True)\<rparr>) \<and>
   (\<exists>fm' fs'.
      write_fm [6, 7, 8, 9, 10] 5
        (\<lparr>m_File = Some ''logs/app-1.log'', m_DirectoryPath = ''logs/'', m_CachedTag = ''app'',
          m_BytesPerFile = 10, m_CurrentBytes = 6, m_MaxLogFiles = 0, m_CurrentLogFiles = 1,
          m_RotateLogs = False, m_State = True\<rparr>,
         \<lparr>contents = [''logs/app-1.log'' \<mapsto> [1, 2, 3, 4, 5]],
          handles = [''logs/app-1.log''], writable = (\<lambda>p. True)\<rparr>) = Inr (fm', fs') \<and>
      m_CurrentLogFiles fm' = 2 \<and> m_CurrentBytes fm' = 6 \<and>
      m_File fm' = Some (constructFullPath fm') \<and>
      contents fs' (constructFullPath fm') = Some [6, 7, 8, 9, 10])"
proof -
  let ?fm = "\<lparr>m_File = Some ''logs/app-1.log'', m_DirectoryPath = ''logs/'', m_CachedTag = ''app'',
          m_BytesPerFile = 10, m_CurrentBytes = 6, m_MaxLogFiles = 0, m_CurrentLogFiles = 1,
          m_RotateLogs = False, m_State = True\<rparr>"
  let ?fs = "\<lparr>contents = [''logs/app-1.log'' \<mapsto> [1, 2, 3, 4, 5 :: byte]],
          handles = [''logs/app-1.log''], writable = (\<lambda>p. True)\<rparr>"
  have "\<exists>fm' fs'. write_fm [6, 7, 8, 9, 10] 5 (?fm, ?fs) = Inr (fm', fs') \<and>
           m_CurrentLogFiles fm' = m_CurrentLogFiles ?fm + 1 \<and>
           m_CurrentBytes fm' = 5 + 1 \<and>
           m_File fm' = Some (constructFullPath fm') \<and>
           contents fs' (constructFullPath fm') = Some (take (unat (5 :: size_t)) [6, 7, 8, 9, 10])"
    by (rule zero_maxfiles_rotates) (simp_all add: ready_def)
  moreover have "write_fm [1, 2, 3, 4, 5] 5 (snd (init ''logs'' ''app'' 10 0 False (FileManager_ctor, fs_empty))) =
      Inr (?fm, ?fs)"
    by (simp add: writer_eval)
  ultimately show ?thesis
    by simp
qed

lemma writes_not_ready: "\<not> ready (fst s) \<Longrightarrow> writes ws s = Inr s"
proof (induction ws)
  case Nil
  show ?case by simp
next
  case (Cons w ws)
  obtain bs n where w: "w = (bs, n)" by (cases w)
  from Cons show ?case
    by (simp add: w write_fm_def)
qed

lemma terminate_not_ready: "\<not> ready (fst (terminate s))"
  by (cases s) (simp add: terminate_def close_current_def ready_def split: option.splits)

lemma terminate_writable: "writable (snd (terminate s)) = writable (snd s)"
  by (cases s) (simp add: terminate_def close_current_def fclose_def split: option.splits)

lemma init_writable:
  assumes "writable fs (directoryPath @ ''/'' @ loggerTag @ ''-1.log'')"
    and "init directoryPath loggerTag b m r (fm, fs) = (res, fm', fs')"
  shows "res \<and> m_CurrentLogFiles fm' = 1 \<and> m_CurrentBytes fm' = 0 \<and> ok fm' \<and> ready fm' \<and>
         m_File fm' = Some (directoryPath @ ''/'' @ loggerTag @ ''-1.log'') \<and>
         contents fs' (directoryPath @ ''/'' @ loggerTag @ ''-1.log'') = Some []"
proof -
  let ?fm0 = "fm\<lparr>m_CachedTag := loggerTag, m_BytesPerFile := b, m_MaxLogFiles := m,
      m_RotateLogs := r, m_CurrentBytes := 0, m_CurrentLogFiles := 1,
      m_DirectoryPath := directoryPath @ ''/''\<rparr>"
  have p: "constructFullPath ?fm0 = directoryPath @ ''/'' @ loggerTag @ ''-1.log''"
    by (simp add: constructFullPath_def to_string.simps digit_char_def)
  have w: "writable fs (constructFullPath ?fm0)"
    using assms(1) p by simp
  show ?thesis
    using assms(2) p
    by (auto simp: init_def newLogFile_writable [OF w] ok_def ready_def)
qed

text \<open>
  C8. After \<open>terminate\<close>, every sequence of writes leaves the writer and the files as they
  are. An \<open>init\<close> that follows, on a path that can be opened, returns true and leaves the
  file index 1, the byte count 0 and the health flag true (and the writer open).
\<close>

theorem terminate_then_write_then_init:
  assumes "writable (snd s) (directoryPath @ ''/'' @ loggerTag @ ''-1.log'')"
    and "init directoryPath loggerTag bytesPerFile maxLogFiles rotateLogs (terminate s) = (res, fm', fs')"
  shows "writes ws (terminate s) = Inr (terminate s) \<and>
         res \<and> m_CurrentLogFiles fm' = 1 \<and> m_CurrentBytes fm' = 0 \<and> ok fm' \<and> ready fm'"
proof -
  obtain fm1 fs1 where t: "terminate s = (fm1, fs1)" by (cases "terminate s")
  have "writable fs1 (directoryPath @ ''/'' @ loggerTag @ ''-1.log'')"
    using assms(1) terminate_writable [of s] by (simp add: t)
  moreover have "init directoryPath loggerTag bytesPerFile maxLogFiles rotateLogs (fm1, fs1) = (res, fm', fs')"
    using assms(2) by (simp add: t)
  ultimately have "res \<and> m_CurrentLogFiles fm' = 1 \<and> m_CurrentBytes fm' = 0 \<and> ok fm' \<and> ready fm'"
    using init_writable by blast
  moreover have "writes ws (terminate s) = Inr (terminate s)"
    by (rule writes_not_ready [OF terminate_not_ready])
  ultimately show ?thesis
    by simp
qed

theorem terminate_then_write_then_init_witness:
  "writable (snd (snd (init ''logs'' ''app'' 10 2 True (FileManager_ctor, fs_empty)))) (''out'' @ ''/'' @ ''tag'' @ ''-1.log'') \<and>
   ready (fst (snd (init ''logs'' ''app'' 10 2 True (FileManager_ctor, fs_empty)))) \<and>
   writes [([1, 2, 3], 3), ([4, 5], 2)]
     (terminate (snd (init ''logs'' ''app'' 10 2 True (FileManager_ctor, fs_empty)))) =
   Inr (terminate (snd (init ''logs'' ''app'' 10 2 True (FileManager_ctor, fs_empty)))) \<and>
   fst (init ''out'' ''tag'' 20 3 False
     (terminate (snd (init ''logs'' ''app'' 10 2 True (FileManager_ctor, fs_empty))))) \<and>
   m_CurrentLogFiles (fst (snd (init ''out'' ''tag'' 20 3 False
     (terminate (snd (init ''logs'' ''app'' 10 2 True (FileManager_ctor, fs_empty))))))) = 1 \<and>
   m_CurrentBytes (fst (snd (init ''out'' ''tag'' 20 3 False
     (terminate (snd (init ''logs'' ''app'' 10 2 True (FileManager_ctor, fs_empty))))))) = 0 \<and>
   ok (fst (snd (init ''out'' ''tag'' 20 3 False
     (terminate (snd (init ''logs'' ''app'' 10 2 True (FileManager_ctor, fs_empty)))))))"
proof -
  let ?s = "snd (init ''logs'' ''app'' 10 2 True (FileManager_ctor, fs_empty))"
  let ?i = "init ''out'' ''tag'' 20 3 False (terminate ?s)"
  have w: "writable (snd ?s) (''out'' @ ''/'' @ ''tag'' @ ''-1.log'')" and r: "ready (fst ?s)"
    by (simp_all add: writer_eval)
  have i: "?i = (fst ?i, fst (snd ?i), snd (snd ?i))"
    by simp
  from terminate_then_write_then_init [OF w i, of "[([1, 2, 3], 3), ([4, 5], 2)]"] w r
  show ?thesis
    by simp
qed

text \<open>
  C10. A write that is accepted (the writer is open, the record of size \<open>n\<close> passes the
  budget check) accounts \<open>n + 1\<close> bytes and appends exactly \<open>n\<close> bytes to the file: without
  a move to another file \<open>m_CurrentBytes\<close> grows by \<open>n + 1\<close>, after a move it is \<open>n + 1\<close>
  counted from zero. Hence a record whose size equals \<open>m_BytesPerFile\<close> is rejected, and
  the writer moves to another file when the accounted bytes, not the bytes in the file,
  would exceed \<open>m_BytesPerFile\<close>. (As in C6, \<open>++size\<close> does not wrap, and the buffer holds
  the \<open>n\<close> bytes.)
\<close>

theorem write_accounting:
  assumes "ready fm" and "n + 1 \<noteq> 0" and "unat n \<le> length bs"
  shows
    "(m_BytesPerFile fm \<noteq> 0 \<and> n = m_BytesPerFile fm \<longrightarrow> write_fm bs n (fm, fs) = Inr (fm, fs)) \<and>
     (m_BytesPerFile fm = 0 \<or>
        (n + 1 \<le> m_BytesPerFile fm \<and> m_CurrentBytes fm + (n + 1) \<le> m_BytesPerFile fm) \<longrightarrow>
      (\<exists>h fs'. m_File fm = Some h \<and>
         write_fm bs n (fm, fs) = Inr (fm\<lparr>m_CurrentBytes := m_CurrentBytes fm + (n + 1)\<rparr>, fs') \<and>
         contents fs' h =
           Some ((case contents fs h of None \<Rightarrow> [] | Some old \<Rightarrow> old) @ take (unat n) bs) \<and>
         length (take (unat n) bs) = unat n)) \<and>
     (m_BytesPerFile fm \<noteq> 0 \<and> n + 1 \<le> m_BytesPerFile fm \<and>
        m_BytesPerFile fm < m_CurrentBytes fm + (n + 1) \<and>
        (m_CurrentLogFiles fm = m_MaxLogFiles fm \<longrightarrow> m_RotateLogs fm) \<and>
        writable fs (constructFullPath (fm\<lparr>m_CurrentLogFiles :=
           (if m_CurrentLogFiles fm = m_MaxLogFiles fm then 1 else m_CurrentLogFiles fm + 1)\<rparr>)) \<longrightarrow>
      (\<exists>fm' fs'. write_fm bs n (fm, fs) = Inr (fm', fs') \<and>
         m_CurrentLogFiles fm' =
           (if m_CurrentLogFiles fm = m_MaxLogFiles fm then 1 else m_CurrentLogFiles fm + 1) \<and>
         m_CurrentBytes fm' = n + 1 \<and>
         m_File fm' = Some (constructFullPath fm') \<and>
         contents fs' (constructFullPath fm') = Some (take (unat n) bs) \<and>
         length (take (unat n) bs) = unat n))"
proof (intro conjI impI)
  assume "m_BytesPerFile fm \<noteq> 0 \<and> n = m_BytesPerFile fm"
  moreover have "n < n + 1"
    using assms(2) by (rule word_lt_succ)
  ultimately show "write_fm bs n (fm, fs) = Inr (fm, fs)"
    by (simp add: write_fm_def)
next
  assume fits: "m_BytesPerFile fm = 0 \<or>
        (n + 1 \<le> m_BytesPerFile fm \<and> m_CurrentBytes fm + (n + 1) \<le> m_BytesPerFile fm)"
  obtain h where h: "m_File fm = Some h"
    using assms(1) by (auto simp: ready_def)
  have r: "rollover (n + 1) (fm, fs) = Some (fm, fs)"
    using fits by (auto simp: rollover_def not_less)
  have "write_fm bs n (fm, fs) =
          Inr (fm\<lparr>m_CurrentBytes := m_CurrentBytes fm + (n + 1)\<rparr>, fwrite fs h (take (unat n) bs))"
    using assms(1) fits r h by (intro write_fm_accepted) auto
  moreover have "contents (fwrite fs h (take (unat n) bs)) h =
      Some ((case contents fs h of None \<Rightarrow> [] | Some old \<Rightarrow> old) @ take (unat n) bs)"
    by (simp add: fwrite_def split: option.splits)
  ultimately show "\<exists>h fs'. m_File fm = Some h \<and>
         write_fm bs n (fm, fs) = Inr (fm\<lparr>m_CurrentBytes := m_CurrentBytes fm + (n + 1)\<rparr>, fs') \<and>
         contents fs' h =
           Some ((case contents fs h of None \<Rightarrow> [] | Some old \<Rightarrow> old) @ take (unat n) bs) \<and>
         length (take (unat n) bs) = unat n"
    using h assms(3) by simp
next
  let ?i = "if m_CurrentLogFiles fm = m_MaxLogFiles fm then 1 else m_CurrentLogFiles fm + 1"
  assume over: "m_BytesPerFile fm \<noteq> 0 \<and> n + 1 \<le> m_BytesPerFile fm \<and>
        m_BytesPerFile fm < m_CurrentBytes fm + (n + 1) \<and>
        (m_CurrentLogFiles fm = m_MaxLogFiles fm \<longrightarrow> m_RotateLogs fm) \<and>
        writable fs (constructFullPath (fm\<lparr>m_CurrentLogFiles := ?i\<rparr>))"
  let ?fm0 = "fm\<lparr>m_CurrentLogFiles := ?i, m_CurrentBytes := 0\<rparr>"
  let ?p = "constructFullPath ?fm0"
  let ?fm1 = "?fm0\<lparr>m_File := Some ?p, m_State := True\<rparr>"
  have p: "?p = constructFullPath (fm\<lparr>m_CurrentLogFiles := ?i\<rparr>)"
    by (simp add: constructFullPath_def)
  have w: "writable fs ?p"
    using over p by simp
  obtain fs1 where n: "newLogFile (?fm0, fs) = (?fm1, fs1)" and c: "contents fs1 ?p = Some []"
    using newLogFile_writable [OF w] by simp
  have eq: "fm\<lparr>m_CurrentBytes := 0, m_CurrentLogFiles := m_CurrentLogFiles fm + 1\<rparr> =
            fm\<lparr>m_CurrentLogFiles := m_CurrentLogFiles fm + 1, m_CurrentBytes := 0\<rparr>"
    by simp
  have r: "rollover (n + 1) (fm, fs) = Some (?fm1, fs1)"
    using over n by (auto simp: rollover_def eq)
  have "write_fm bs n (fm, fs) =
          Inr (?fm1\<lparr>m_CurrentBytes := m_CurrentBytes ?fm1 + (n + 1)\<rparr>, fwrite fs1 ?p (take (unat n) bs))"
    using assms(1) over r by (intro write_fm_accepted) simp_all
  moreover have "constructFullPath (?fm1\<lparr>m_CurrentBytes := m_CurrentBytes ?fm1 + (n + 1)\<rparr>) = ?p"
    by (simp add: constructFullPath_def)
  ultimately show "\<exists>fm' fs'. write_fm bs n (fm, fs) = Inr (fm', fs') \<and>
         m_CurrentLogFiles fm' = ?i \<and>
         m_CurrentBytes fm' = n + 1 \<and>
         m_File fm' = Some (constructFullPath fm') \<and>
         contents fs' (constructFullPath fm') = Some (take (unat n) bs) \<and>
         length (take (unat n) bs) = unat n"
    using c assms(3) by (simp add: fwrite_def)
qed

theorem write_accounting_witness:
  "write_fm [1, 2, 3, 4, 5] 5 (snd (init ''logs'' ''app'' 5 2 True (FileManager_ctor, fs_empty))) =
     Inr (snd (init ''logs'' ''app'' 5 2 True (FileManager_ctor, fs_empty))) \<and>
   write_fm [1, 2, 3, 4, 5] 5
     (\<lparr>m_File = Some ''logs/app-1.log'', m_DirectoryPath = ''logs/'', m_CachedTag = ''app'',
       m_BytesPerFile = 10, m_CurrentBytes = 0, m_MaxLogFiles = 2, m_CurrentLogFiles = 1,
       m_RotateLogs = True, m_State = True\<rparr>,
      \<lparr>contents = [''logs/app-1.log'' \<mapsto> []],
       handles = [''logs/app-1.log''], writable = (\<lambda>p. True)\<rparr>) =
     Inr (\<lparr>m_File = Some ''logs/app-1.log'', m_DirectoryPath = ''logs/'', m_CachedTag = ''app'',
           m_BytesPerFile = 10, m_CurrentBytes = 6, m_MaxLogFiles = 2, m_CurrentLogFiles = 1,
           m_RotateLogs = True, m_State = True\<rparr>,
          \<lparr>contents = [''logs/app-1.log'' \<mapsto> [1, 2, 3, 4, 5]],
           handles = [''logs/app-1.log''], writable = (\<lambda>p. True)\<rparr>) \<and>
   (\<exists>fm' fs'.
      write_fm [6, 7, 8, 9, 10] 5
        (\<lparr>m_File = Some ''logs/app-1.log'', m_DirectoryPath = ''logs/'', m_CachedTag = ''app'',
          m_BytesPerFile = 10, m_CurrentBytes = 6, m_MaxLogFiles = 2, m_CurrentLogFiles = 1,
          m_RotateLogs = True, m_State = True\<rparr>,
         \<lparr>contents = [''logs/app-1.log'' \<mapsto> [1, 2, 3, 4, 5]],
          handles = [''logs/app-1.log''], writable = (\<lambda>p. True)\<rparr>) = Inr (fm', fs') \<and>
      m_CurrentLogFiles fm' = 2 \<and> m_CurrentBytes fm' = 6 \<and>
      m_File fm' = Some (constructFullPath fm') \<and>
      contents fs' (constructFullPath fm') = Some [6, 7, 8, 9, 10])"
proof -
  let ?a = "snd (init ''logs'' ''app'' 5 2 True (FileManager_ctor, fs_empty))"
  let ?fm0 = "\<lparr>m_File = Some ''logs/app-1.log'', m_DirectoryPath = ''logs/'', m_CachedTag = ''app'',
       m_BytesPerFile = 10, m_CurrentBytes = 0, m_MaxLogFiles = 2, m_CurrentLogFiles = 1,
       m_RotateLogs = True, m_State = True\<rparr>"
  let ?fs0 = "\<lparr>contents = [''logs/app-1.log'' \<mapsto> ([] :: byte list)],
       handles = [''logs/app-1.log''], writable = (\<lambda>p. True)\<rparr>"
  let ?fm1 = "?fm0\<lparr>m_CurrentBytes := 6\<rparr>"
  let ?fs1 = "\<lparr>contents = [''logs/app-1.log'' \<mapsto> [1, 2, 3, 4, 5 :: byte]],
       handles = [''logs/app-1.log''], writable = (\<lambda>p. True)\<rparr>"
  have a: "?a = (fst ?a, snd ?a)" and ra: "ready (fst ?a)" and ba: "m_BytesPerFile (fst ?a) = 5"
    by (simp_all add: writer_eval)
  have "write_fm [1, 2, 3, 4, 5] 5 (fst ?a, snd ?a) = Inr (fst ?a, snd ?a)"
    using write_accounting [of "fst ?a" 5 "[1, 2, 3, 4, 5]" "snd ?a"] ra ba by simp
  then have 1: "write_fm [1, 2, 3, 4, 5] 5 ?a = Inr ?a"
    by simp
  have "\<exists>h fs'. m_File ?fm0 = Some h \<and>
         write_fm [1, 2, 3, 4, 5] 5 (?fm0, ?fs0) = Inr (?fm0\<lparr>m_CurrentBytes := m_CurrentBytes ?fm0 + (5 + 1)\<rparr>, fs') \<and>
         contents fs' h =
           Some ((case contents ?fs0 h of None \<Rightarrow> [] | Some old \<Rightarrow> old) @ take (unat (5 :: size_t)) [1, 2, 3, 4, 5]) \<and>
         length (take (unat (5 :: size_t)) [1, 2, 3, 4, 5 :: byte]) = unat (5 :: size_t)"
    using write_accounting [of ?fm0 5 "[1, 2, 3, 4, 5]" ?fs0] by (simp add: ready_def)
  then have 2: "write_fm [1, 2, 3, 4, 5] 5 (?fm0, ?fs0) = Inr (?fm1, ?fs1)"
    by (simp add: writer_eval)
  have 3: "\<exists>fm' fs'. write_fm [6, 7, 8, 9, 10] 5 (?fm1, ?fs1) = Inr (fm', fs') \<and>
      m_CurrentLogFiles fm' = 2 \<and> m_CurrentBytes fm' = 6 \<and>
      m_File fm' = Some (constructFullPath fm') \<and>
      contents fs' (constructFullPath fm') = Some [6, 7, 8, 9, 10]"
    using write_accounting [of ?fm1 5 "[6, 7, 8, 9, 10]" ?fs1] by (simp add: ready_def)
  from 1 2 3 show ?thesis
    by simp
qed

section \<open>Properties of the task queue and the worker pool\<close>

lemmas pool_eval =
  thread_pool_ctor_def post_def flush_def add_helper_def remove_helper_def take_task_def
  console_output_def run_task_def do_work_def worker_step_def shutdown_step_def step_def run_def
  BLOGGER_TASK_LIMIT_def

lemma fold_post_queue:
  "length (m_TaskQueue s) + length ms \<le> BLOGGER_TASK_LIMIT \<Longrightarrow>
     m_TaskQueue (fold post ms s) = m_TaskQueue s @ map log_task ms"
proof (induction ms arbitrary: s)
  case Nil
  show ?case by simp
next
  case (Cons m ms)
  have q: "m_TaskQueue (post m s) = m_TaskQueue s @ [log_task m]"
    using Cons.prems by (simp add: post_def)
  have "m_TaskQueue (fold post ms (post m s)) = m_TaskQueue (post m s) @ map log_task ms"
    using Cons.prems by (intro Cons.IH) (simp add: q)
  then show ?case
    by (simp add: q)
qed

text \<open>
  C1. The claim is that the queue never holds more than \<open>BLOGGER_TASK_LIMIT = 100\<close> tasks
  after a post, a flush or a pop. The code breaks it: \<open>post\<close> evicts at the limit, \<open>flush\<close>
  appends without looking at the size. After 100 posts and a flush the queue holds 101
  tasks; the next post finds a size that is not 100, evicts nothing, and the queue
  holds 102.
\<close>

theorem flush_exceeds_task_limit:
  "length (m_TaskQueue (flush (fold post (replicate 100 message) (thread_pool_ctor thread_count objs)))) = 101 \<and>
   length (m_TaskQueue (post message'
      (flush (fold post (replicate 100 message) (thread_pool_ctor thread_count objs))))) = 102"
proof -
  let ?s = "fold post (replicate 100 message) (thread_pool_ctor thread_count objs)"
  have "m_TaskQueue ?s = m_TaskQueue (thread_pool_ctor thread_count objs) @ map log_task (replicate 100 message)"
    by (rule fold_post_queue) (simp add: thread_pool_ctor_def BLOGGER_TASK_LIMIT_def)
  then have "length (m_TaskQueue ?s) = 100"
    by (simp add: thread_pool_ctor_def)
  then show ?thesis
    by (simp add: flush_def post_def BLOGGER_TASK_LIMIT_def)
qed

text \<open>
  C2. On a queue that holds \<open>BLOGGER_TASK_LIMIT\<close> tasks, \<open>post\<close> removes the front task and
  puts the new record at the back; the tasks in between keep their order, nothing else
  of the pool changes, and the queue is at the limit again. \<open>post\<close> is a total function
  whose result always ends in the new record: it does not wait for room and does not
  turn the record down.
\<close>

theorem post_at_capacity:
  assumes "length (m_TaskQueue s) = BLOGGER_TASK_LIMIT"
  shows "\<exists>oldest others.
           m_TaskQueue s = oldest # others \<and>
           post message s = s\<lparr>m_TaskQueue := others @ [log_task message]\<rparr> \<and>
           length (m_TaskQueue (post message s)) = BLOGGER_TASK_LIMIT"
proof -
  obtain oldest others where q: "m_TaskQueue s = oldest # others"
    using assms by (cases "m_TaskQueue s") (simp_all add: BLOGGER_TASK_LIMIT_def)
  with assms show ?thesis
    by (simp add: post_def)
qed

theorem post_at_capacity_witness:
  "length (m_TaskQueue ((thread_pool_ctor 1 (\<lambda>a. ()))
       \<lparr>m_TaskQueue := log_task \<lparr>sender = 1, data = [97], console = True, file_flag = False,
            color = False, log_level = info\<rparr> # replicate 99 flush_task\<rparr>)) = BLOGGER_TASK_LIMIT \<and>
   m_TaskQueue (post \<lparr>sender = 2, data = [98], console = True, file_flag = False,
            color = False, log_level = warn\<rparr>
     ((thread_pool_ctor 1 (\<lambda>a. ()))
       \<lparr>m_TaskQueue := log_task \<lparr>sender = 1, data = [97], console = True, file_flag = False,
            color = False, log_level = info\<rparr> # replicate 99 flush_task\<rparr>)) =
   replicate 99 flush_task @ [log_task \<lparr>sender = 2, data = [98], console = True, file_flag = False,
            color = False, log_level = warn\<rparr>]"
proof -
  let ?s = "(thread_pool_ctor 1 (\<lambda>a. ()))
       \<lparr>m_TaskQueue := log_task \<lparr>sender = 1, data = [97], console = True, file_flag = False,
            color = False, log_level = info\<rparr> # replicate 99 flush_task\<rparr>"
  have l: "length (m_TaskQueue ?s) = BLOGGER_TASK_LIMIT"
    by (simp add: BLOGGER_TASK_LIMIT_def)
  from post_at_capacity [OF l, of "\<lparr>sender = 2, data = [98], console = True, file_flag = False,
            color = False, log_level = warn\<rparr>"] l
  show ?thesis
    by auto
qed

text \<open>
  C9. When the sender of the record at the front of the queue has been unregistered
  (\<open>remove_helper\<close>) before a worker carries the record out, \<open>do_work\<close> returns true with the
  record popped, the registry and every helper object untouched (no write, whatever
  \<^verbatim>\<open>file()\<close> says), and the console output of the record appended when \<^verbatim>\<open>console()\<close> is set.
\<close>

theorem unregistered_sender_skips_file_write:
  assumes "m_TaskQueue s = log_task msg # rest"
    and "sender (finalize_format msg) = ident"
  shows "do_work finalize_format wr (remove_helper ident s) =
           (True, (remove_helper ident s)
              \<lparr>m_TaskQueue := rest,
               cout := cout s @ (if console (finalize_format msg)
                                 then console_output (finalize_format msg) else [])\<rparr>)"
  using assms
  by (simp add: do_work_def take_task_def run_task_def remove_helper_def Let_def)

theorem unregistered_sender_skips_file_write_witness:
  "m_TaskQueue (add_helper 7 0 (post \<lparr>sender = 7, data = [104, 105], console = True, file_flag = True,
        color = True, log_level = warn\<rparr> (thread_pool_ctor 1 (\<lambda>a. 0 :: nat)))) =
     [log_task \<lparr>sender = 7, data = [104, 105], console = True, file_flag = True,
        color = True, log_level = warn\<rparr>] \<and>
   helpers (snd (do_work (\<lambda>m. m) (\<lambda>h bs n. Suc h)
     (add_helper 7 0 (post \<lparr>sender = 7, data = [104, 105], console = True, file_flag = True,
        color = True, log_level = warn\<rparr> (thread_pool_ctor 1 (\<lambda>a. 0 :: nat)))))) 0 = 1 \<and>
   do_work (\<lambda>m. m) (\<lambda>h bs n. Suc h)
     (remove_helper 7 (add_helper 7 0 (post \<lparr>sender = 7, data = [104, 105], console = True,
        file_flag = True, color = True, log_level = warn\<rparr> (thread_pool_ctor 1 (\<lambda>a. 0 :: nat))))) =
     (True, \<lparr>m_Files = (\<lambda>ident. None), m_Pool = [at_do_work], m_TaskQueue = [], m_Running = True,
        helpers = (\<lambda>a. 0), 
        cout = [set_output_color BLOGGER_WARN_COLOR, cout_write [104, 105], set_output_color BLOGGER_RESET],
        teardown = not_called\<rparr>)"
proof -
  let ?m = "\<lparr>sender = 7, data = [104, 105], console = True, file_flag = True,
        color = True, log_level = warn\<rparr>"
  let ?s = "add_helper 7 0 (post ?m (thread_pool_ctor 1 (\<lambda>a. 0 :: nat)))"
  have q: "m_TaskQueue ?s = log_task ?m # []"
    by (simp add: pool_eval)
  have "helpers (snd (do_work (\<lambda>m. m) (\<lambda>h bs n. Suc h) ?s)) 0 = 1"
    by (simp add: pool_eval)
  with unregistered_sender_skips_file_write
         [of ?s ?m "[]" "\<lambda>m. m" 7 "\<lambda>h bs n. Suc h"] q
  show ?thesis
    by (simp add: pool_eval fun_eq_iff)
qed












text \<open>
  C4. The claim is that clearing the running flag loses no pending work: the workers
  drain the queue before they exit, and \<open>shutdown\<close> returns after all have exited. The
  code breaks it. With \<^verbatim>\<open>|| did_work\<close> in the loop condition of \<open>worker\<close> it sets out to
  drain, but the condition reads \<open>m_Running\<close> after \<open>do_work\<close> has released the queue
  lock. The one worker polls the empty queue; a record is posted and \<open>shutdown\<close> clears
  the flag before the worker evaluates the condition; the worker exits, \<open>shutdown\<close> joins
  it and returns, and the record is still queued and never reaches the console.
\<close>

theorem shutdown_loses_posted_record:
  "run (\<lambda>m. m) (\<lambda>h bs n. h)
     [Worker 0,
      Post \<lparr>sender = 1, data = [104, 105], console = True, file_flag = False,
            color = False, log_level = info\<rparr>,
      Shutdown, Worker 0, Shutdown, Shutdown]
     (thread_pool_ctor 1 (\<lambda>a. ())) =
   \<lparr>m_Files = (\<lambda>ident. None), m_Pool = [exited],
     m_TaskQueue = [log_task \<lparr>sender = 1, data = [104, 105], console = True, file_flag = False,
            color = False, log_level = info\<rparr>],
     m_Running = False, helpers = (\<lambda>a. ()), cout = [], teardown = returned\<rparr>"
  by (simp add: pool_eval)

end
